theory Spec2Isabelle
  imports Main
begin

section \<open>Errors and the provider contract\<close>

text \<open>
  Go's \<open>error\<close> values.  \<open>ErrNotFound\<close> is the package's sentinel; \<open>Errno\<close> is an error
  reported by a system call or by the secret-service library, \<open>ErrWrap\<close> is
  \<open>fmt.Errorf("...: %w", err)\<close> and \<open>ExecError\<close> is the failure of a subprocess.
  A Go function returning \<open>error\<close> returns \<open>error option\<close> here (\<open>None\<close> is \<open>nil\<close>).
\<close>

datatype error =
    ErrNotFound
  | Errno string
  | ErrWrap string error
  | ExecError string

text \<open>
  The \<open>Keyring\<close> interface: the four operations every backend implements.  Each operation
  acts on the state \<open>'w\<close> of the outside world (the secret-service daemon, the kernel
  keyring) and returns what Go returns together with the world it leaves behind.
  \<open>Get\<close> returns Go's pair \<open>(string, error)\<close>.
\<close>

record 'w Keyring =
  Set :: "string \<Rightarrow> string \<Rightarrow> string \<Rightarrow> 'w \<Rightarrow> error option \<times> 'w"
  Get :: "string \<Rightarrow> string \<Rightarrow> 'w \<Rightarrow> (string \<times> error option) \<times> 'w"
  Delete :: "string \<Rightarrow> string \<Rightarrow> 'w \<Rightarrow> error option \<times> 'w"
  DeleteAll :: "string \<Rightarrow> 'w \<Rightarrow> error option \<times> 'w"

section \<open>The composite provider\<close>

text \<open>
  \<open>compositeProvider\<close> holds a primary and a fallback; the fallback is an interface value
  that may be \<open>nil\<close>, hence an option.  The primary is called first on the current world;
  when it returned an error and the fallback is not \<open>nil\<close>, the fallback is called on the
  world the primary left.
\<close>

record 'w compositeProvider =
  primary :: "'w Keyring"
  fallback :: "'w Keyring option"

definition compositeProvider_Set ::
  "'w compositeProvider \<Rightarrow> string \<Rightarrow> string \<Rightarrow> string \<Rightarrow> 'w \<Rightarrow> error option \<times> 'w" where
  "compositeProvider_Set c service user pass w =
     (case Set (primary c) service user pass w of (err, w') \<Rightarrow>
        (if err \<noteq> None \<and> fallback c \<noteq> None
         then Set (the (fallback c)) service user pass w'
         else (err, w')))"

definition compositeProvider_Get ::
  "'w compositeProvider \<Rightarrow> string \<Rightarrow> string \<Rightarrow> 'w \<Rightarrow> (string \<times> error option) \<times> 'w" where
  "compositeProvider_Get c service user w =
     (case Get (primary c) service user w of ((result, err), w') \<Rightarrow>
        (if err \<noteq> None \<and> fallback c \<noteq> None
         then Get (the (fallback c)) service user w'
         else ((result, err), w')))"

definition compositeProvider_Delete ::
  "'w compositeProvider \<Rightarrow> string \<Rightarrow> string \<Rightarrow> 'w \<Rightarrow> error option \<times> 'w" where
  "compositeProvider_Delete c service user w =
     (case Delete (primary c) service user w of (err, w') \<Rightarrow>
        (if err \<noteq> None \<and> fallback c \<noteq> None
         then Delete (the (fallback c)) service user w'
         else (err, w')))"

definition compositeProvider_DeleteAll ::
  "'w compositeProvider \<Rightarrow> string \<Rightarrow> 'w \<Rightarrow> error option \<times> 'w" where
  "compositeProvider_DeleteAll c service w =
     (case DeleteAll (primary c) service w of (err, w') \<Rightarrow>
        (if err \<noteq> None \<and> fallback c \<noteq> None
         then DeleteAll (the (fallback c)) service w'
         else (err, w')))"

text \<open>The composite as a \<open>Keyring\<close> value (its method set).\<close>

definition compositeProvider_Keyring :: "'w compositeProvider \<Rightarrow> 'w Keyring" where
  "compositeProvider_Keyring c =
     \<lparr> Set = compositeProvider_Set c, Get = compositeProvider_Get c,
       Delete = compositeProvider_Delete c, DeleteAll = compositeProvider_DeleteAll c \<rparr>"

section \<open>The secret-service backend\<close>

text \<open>
  The backend talks to the daemon through the package \<open>secret_service\<close> (imported as
  \<open>ss\<close>), which is not part of the sources at hand.  Its calls are therefore parameters:
  a record of operations on the daemon's state \<open>'d\<close>.  A call returning \<open>(T, error)\<close>
  whose value the caller reads only when the error is \<open>nil\<close> returns \<open>error + T\<close>.
  A session and a collection are represented by their object paths; a search is the
  attribute map of the Go literal, written as the list of its entries.
\<close>

type_synonym ObjectPath = string

record Secret =
  Session :: ObjectPath
  Value :: string

record 'd SecretService =
  ss_NewSecretService :: "'d \<Rightarrow> error option \<times> 'd"
  ss_OpenSession :: "'d \<Rightarrow> (error + ObjectPath) \<times> 'd"
  ss_Close :: "ObjectPath \<Rightarrow> 'd \<Rightarrow> error option \<times> 'd"
  ss_GetLoginCollection :: "ObjectPath"
  ss_Unlock :: "ObjectPath \<Rightarrow> 'd \<Rightarrow> error option \<times> 'd"
  ss_NewSecret :: "ObjectPath \<Rightarrow> string \<Rightarrow> Secret"
  ss_CreateItem ::
    "ObjectPath \<Rightarrow> string \<Rightarrow> (string \<times> string) list \<Rightarrow> Secret \<Rightarrow> 'd \<Rightarrow> error option \<times> 'd"
  ss_SearchItems ::
    "ObjectPath \<Rightarrow> (string \<times> string) list \<Rightarrow> 'd \<Rightarrow> (error + ObjectPath list) \<times> 'd"
  ss_GetSecret :: "ObjectPath \<Rightarrow> ObjectPath \<Rightarrow> 'd \<Rightarrow> (error + Secret) \<times> 'd"
  ss_Delete :: "ObjectPath \<Rightarrow> 'd \<Rightarrow> error option \<times> 'd"

text \<open>
  \<open>Set\<close>: connect, open a session (closed again by the deferred \<open>svc.Close(session)\<close> on
  every later exit, its error dropped), unlock the login collection and create the item
  labelled \<open>Password for '<user>' on '<service>'\<close>.
\<close>

definition secretServiceProvider_Set ::
  "'d SecretService \<Rightarrow> string \<Rightarrow> string \<Rightarrow> string \<Rightarrow> 'd \<Rightarrow> error option \<times> 'd" where
  "secretServiceProvider_Set svc service user pass d =
     (case ss_NewSecretService svc d of
        (Some err, d1) \<Rightarrow> (Some err, d1)
      | (None, d1) \<Rightarrow>
          (case ss_OpenSession svc d1 of
             (Inl err, d2) \<Rightarrow> (Some err, d2)
           | (Inr session, d2) \<Rightarrow>
               (let attributes = [(''username'', user), (''service'', service)];
                    secret = ss_NewSecret svc session pass;
                    collection = ss_GetLoginCollection svc;
                    (r, d4) =
                      (case ss_Unlock svc collection d2 of
                         (Some err, d3) \<Rightarrow> (Some err, d3)
                       | (None, d3) \<Rightarrow>
                           ss_CreateItem svc collection
                             (''Password for '' @ [CHR 0x27] @ user @ [CHR 0x27] @ '' on '' @
                              [CHR 0x27] @ service @ [CHR 0x27])
                             attributes secret d3)
                in (r, snd (ss_Close svc session d4)))))"

text \<open>\<open>findItem\<close> looks an item up by service and user and returns the first result.\<close>

definition findItem ::
  "'d SecretService \<Rightarrow> string \<Rightarrow> string \<Rightarrow> 'd \<Rightarrow> (error + ObjectPath) \<times> 'd" where
  "findItem svc service user d =
     (let collection = ss_GetLoginCollection svc;
          search = [(''username'', user), (''service'', service)]
      in case ss_Unlock svc collection d of
           (Some err, d1) \<Rightarrow> (Inl err, d1)
         | (None, d1) \<Rightarrow>
             (case ss_SearchItems svc collection search d1 of
                (Inl err, d2) \<Rightarrow> (Inl err, d2)
              | (Inr results, d2) \<Rightarrow>
                  (if length results = 0 then (Inl ErrNotFound, d2)
                   else (Inr (hd results), d2))))"

text \<open>\<open>findServiceItems\<close> looks up all items of a service.\<close>

definition findServiceItems ::
  "'d SecretService \<Rightarrow> string \<Rightarrow> 'd \<Rightarrow> (error + ObjectPath list) \<times> 'd" where
  "findServiceItems svc service d =
     (let collection = ss_GetLoginCollection svc;
          search = [(''service'', service)]
      in case ss_Unlock svc collection d of
           (Some err, d1) \<Rightarrow> (Inl err, d1)
         | (None, d1) \<Rightarrow>
             (case ss_SearchItems svc collection search d1 of
                (Inl err, d2) \<Rightarrow> (Inl err, d2)
              | (Inr results, d2) \<Rightarrow>
                  (if length results = 0 then (Inl ErrNotFound, d2)
                   else (Inr results, d2))))"

definition secretServiceProvider_Get ::
  "'d SecretService \<Rightarrow> string \<Rightarrow> string \<Rightarrow> 'd \<Rightarrow> (string \<times> error option) \<times> 'd" where
  "secretServiceProvider_Get svc service user d =
     (case ss_NewSecretService svc d of
        (Some err, d1) \<Rightarrow> (([], Some err), d1)
      | (None, d1) \<Rightarrow>
          (case findItem svc service user d1 of
             (Inl err, d2) \<Rightarrow> (([], Some err), d2)
           | (Inr item, d2) \<Rightarrow>
               (case ss_OpenSession svc d2 of
                  (Inl err, d3) \<Rightarrow> (([], Some err), d3)
                | (Inr session, d3) \<Rightarrow>
                    (let (r, d6) =
                           (case ss_Unlock svc item d3 of
                              (Some err, d4) \<Rightarrow> (([], Some err), d4)
                            | (None, d4) \<Rightarrow>
                                (case ss_GetSecret svc item session d4 of
                                   (Inl err, d5) \<Rightarrow> (([], Some err), d5)
                                 | (Inr secret, d5) \<Rightarrow> ((Value secret, None), d5)))
                     in (r, snd (ss_Close svc session d6))))))"

definition secretServiceProvider_Delete ::
  "'d SecretService \<Rightarrow> string \<Rightarrow> string \<Rightarrow> 'd \<Rightarrow> error option \<times> 'd" where
  "secretServiceProvider_Delete svc service user d =
     (case ss_NewSecretService svc d of
        (Some err, d1) \<Rightarrow> (Some err, d1)
      | (None, d1) \<Rightarrow>
          (case findItem svc service user d1 of
             (Inl err, d2) \<Rightarrow> (Some err, d2)
           | (Inr item, d2) \<Rightarrow> ss_Delete svc item d2))"

text \<open>
  The loop of \<open>DeleteAll\<close>: \<open>for _, item := range items\<close>, returning at the first
  deletion that fails.
\<close>

fun DeleteAll_items :: "'d SecretService \<Rightarrow> ObjectPath list \<Rightarrow> 'd \<Rightarrow> error option \<times> 'd" where
  "DeleteAll_items svc [] d = (None, d)"
| "DeleteAll_items svc (item # items) d =
     (case ss_Delete svc item d of
        (Some err, d') \<Rightarrow> (Some err, d')
      | (None, d') \<Rightarrow> DeleteAll_items svc items d')"

text \<open>
  Two notions to speak about a run of deletions: the daemon after \<open>Delete\<close> was called on
  each path of a list in turn, and whether each of those calls succeeds.
\<close>

definition deleted_state :: "'d SecretService \<Rightarrow> ObjectPath list \<Rightarrow> 'd \<Rightarrow> 'd" where
  "deleted_state svc paths d = foldl (\<lambda>d path. snd (ss_Delete svc path d)) d paths"

fun deletions_succeed :: "'d SecretService \<Rightarrow> ObjectPath list \<Rightarrow> 'd \<Rightarrow> bool" where
  "deletions_succeed svc [] d = True"
| "deletions_succeed svc (path # paths) d =
     (fst (ss_Delete svc path d) = None \<and> deletions_succeed svc paths (snd (ss_Delete svc path d)))"

definition secretServiceProvider_DeleteAll ::
  "'d SecretService \<Rightarrow> string \<Rightarrow> 'd \<Rightarrow> error option \<times> 'd" where
  "secretServiceProvider_DeleteAll svc service d =
     (if service = [] then (Some ErrNotFound, d)
      else
        (case ss_NewSecretService svc d of
           (Some err, d1) \<Rightarrow> (Some err, d1)
         | (None, d1) \<Rightarrow>
             (case findServiceItems svc service d1 of
                (Inl err, d2) \<Rightarrow> (if err = ErrNotFound then (None, d2) else (Some err, d2))
              | (Inr items, d2) \<Rightarrow> DeleteAll_items svc items d2)))"

definition secretServiceProvider :: "'d SecretService \<Rightarrow> 'd Keyring" where
  "secretServiceProvider svc =
     \<lparr> Set = secretServiceProvider_Set svc, Get = secretServiceProvider_Get svc,
       Delete = secretServiceProvider_Delete svc,
       DeleteAll = secretServiceProvider_DeleteAll svc \<rparr>"

section \<open>Go's string functions\<close>

text \<open>
  A Go string is a sequence of bytes, here a \<open>char list\<close>.  The functions of package
  \<open>strings\<close> that the kernel-keyring backend calls follow the library's definitions:
  \<open>HasPrefix\<close> compares the first \<open>len(prefix)\<close> bytes, \<open>Index\<close> is the position of the
  first occurrence (\<open>None\<close> for Go's \<open>-1\<close>), \<open>Contains\<close> is \<open>Index \<ge> 0\<close>.
\<close>

definition HasPrefix :: "string \<Rightarrow> string \<Rightarrow> bool" where
  "HasPrefix s pre \<longleftrightarrow> length pre \<le> length s \<and> take (length pre) s = pre"

definition HasSuffix :: "string \<Rightarrow> string \<Rightarrow> bool" where
  "HasSuffix s suf \<longleftrightarrow> length suf \<le> length s \<and> drop (length s - length suf) s = suf"

fun Index :: "string \<Rightarrow> string \<Rightarrow> nat option" where
  "Index [] substr = (if substr = [] then Some 0 else None)"
| "Index (c # s) substr =
     (if HasPrefix (c # s) substr then Some 0 else map_option Suc (Index s substr))"

definition Contains :: "string \<Rightarrow> string \<Rightarrow> bool" where
  "Contains s substr \<longleftrightarrow> Index s substr \<noteq> None"

text \<open>
  \<open>strings.Split(s, sep)\<close> cuts \<open>s\<close> at every occurrence of \<open>sep\<close>, leftmost first and
  without overlap, and always returns at least one piece.  The backend splits at the
  constants \<open>"\\n"\<close> and \<open>"user:"\<close> only; for the empty separator Go explodes the string
  into its UTF-8 sequences, which is written here for single bytes only.
\<close>

function Split :: "string \<Rightarrow> string \<Rightarrow> string list" where
  "Split s sep =
     (if sep = [] then map (\<lambda>c. [c]) s
      else case Index s sep of
             None \<Rightarrow> [s]
           | Some i \<Rightarrow> take i s # Split (drop (i + length sep) s) sep)"
  by pat_completeness auto

lemma Index_bound: "Index s sep = Some i \<Longrightarrow> i + length sep \<le> length s"
proof (induction s arbitrary: i)
  case Nil
  then show ?case by (simp split: if_splits)
next
  case (Cons c s)
  show ?case
  proof (cases "HasPrefix (c # s) sep")
    case True
    with Cons.prems show ?thesis by (simp add: HasPrefix_def)
  next
    case False
    with Cons.prems obtain j where "Index s sep = Some j" "i = Suc j" by auto
    with Cons.IH show ?thesis by fastforce
  qed
qed

termination Split
proof (relation "measure (\<lambda>(s, sep). length s)")
  show "wf (measure (\<lambda>(s, sep). length s))" by simp
next
  fix s sep :: string and i :: nat
  assume "sep \<noteq> []" and "Index s sep = Some i"
  then have "i + length sep \<le> length s" and "0 < length sep"
    by (simp_all add: Index_bound)
  then have "length s - (i + length sep) < length s"
    by arith
  then show "((drop (i + length sep) s, sep), (s, sep)) \<in> measure (\<lambda>(s, sep). length s)"
    by simp
qed

text \<open>
  \<open>strings.TrimSpace\<close> removes leading and trailing white space as Unicode defines it
  (\<open>unicode.IsSpace\<close>).  On bytes: the six ASCII characters and the UTF-8 encodings of
  U+0085, U+00A0, U+1680, U+2000 to U+200A, U+2028, U+2029, U+202F, U+205F and U+3000.
\<close>

definition space_runes :: "string list" where
  "space_runes =
     [[CHR 0x09], [CHR 0x0A], [CHR 0x0B], [CHR 0x0C], [CHR 0x0D], [CHR 0x20],
      [CHR 0xC2, CHR 0x85], [CHR 0xC2, CHR 0xA0],
      [CHR 0xE1, CHR 0x9A, CHR 0x80],
      [CHR 0xE2, CHR 0x80, CHR 0x80], [CHR 0xE2, CHR 0x80, CHR 0x81],
      [CHR 0xE2, CHR 0x80, CHR 0x82], [CHR 0xE2, CHR 0x80, CHR 0x83],
      [CHR 0xE2, CHR 0x80, CHR 0x84], [CHR 0xE2, CHR 0x80, CHR 0x85],
      [CHR 0xE2, CHR 0x80, CHR 0x86], [CHR 0xE2, CHR 0x80, CHR 0x87],
      [CHR 0xE2, CHR 0x80, CHR 0x88], [CHR 0xE2, CHR 0x80, CHR 0x89],
      [CHR 0xE2, CHR 0x80, CHR 0x8A],
      [CHR 0xE2, CHR 0x80, CHR 0xA8], [CHR 0xE2, CHR 0x80, CHR 0xA9],
      [CHR 0xE2, CHR 0x80, CHR 0xAF], [CHR 0xE2, CHR 0x81, CHR 0x9F],
      [CHR 0xE3, CHR 0x80, CHR 0x80]]"

text \<open>The number of bytes of the white-space rune a string starts (ends) with, 0 if none.\<close>

definition leading_space :: "string \<Rightarrow> nat" where
  "leading_space s = (case find (HasPrefix s) space_runes of None \<Rightarrow> 0 | Some r \<Rightarrow> length r)"

definition trailing_space :: "string \<Rightarrow> nat" where
  "trailing_space s = (case find (HasSuffix s) space_runes of None \<Rightarrow> 0 | Some r \<Rightarrow> length r)"

lemma leading_space_bound: "leading_space s \<le> length s"
  by (auto simp: leading_space_def HasPrefix_def split: option.splits dest!: find_Some_iff[THEN iffD1])

lemma trailing_space_bound: "trailing_space s \<le> length s"
  by (auto simp: trailing_space_def HasSuffix_def split: option.splits dest!: find_Some_iff[THEN iffD1])

function TrimLeft :: "string \<Rightarrow> string" where
  "TrimLeft s = (if leading_space s = 0 then s else TrimLeft (drop (leading_space s) s))"
  by pat_completeness auto

termination TrimLeft
proof (relation "measure length")
  show "wf (measure length)" by simp
next
  fix s :: string
  assume "leading_space s \<noteq> 0"
  with leading_space_bound [of s] show "(drop (leading_space s) s, s) \<in> measure length"
    by simp
qed

function TrimRight :: "string \<Rightarrow> string" where
  "TrimRight s =
     (if trailing_space s = 0 then s else TrimRight (take (length s - trailing_space s) s))"
  by pat_completeness auto

termination TrimRight
proof (relation "measure length")
  show "wf (measure length)" by simp
next
  fix s :: string
  assume "trailing_space s \<noteq> 0"
  with trailing_space_bound [of s]
  show "(take (length s - trailing_space s) s, s) \<in> measure length"
    by simp
qed

definition TrimSpace :: "string \<Rightarrow> string" where
  "TrimSpace s = TrimRight (TrimLeft s)"

text \<open>\<open>fmt.Sprintf("%d", n)\<close>: the decimal digits of an integer, with its sign.\<close>

function decimal :: "nat \<Rightarrow> string" where
  "decimal n =
     (if n < 10 then [''0123456789'' ! n]
      else decimal (n div 10) @ [''0123456789'' ! (n mod 10)])"
  by pat_completeness auto

termination decimal
  by (relation "measure id") auto

text \<open>The recursive equations are unfolded by hand where they are needed.\<close>

declare Split.simps [simp del] TrimLeft.simps [simp del] TrimRight.simps [simp del]
  decimal.simps [simp del]

definition Sprintf_d :: "int \<Rightarrow> string" where
  "Sprintf_d n = (if n < 0 then ''-'' @ decimal (nat (- n)) else decimal (nat n))"

section \<open>The kernel keyring and the \<open>keyctl\<close> tool\<close>

text \<open>
  The kernel-keyring backend acts on the host through the system calls of package
  \<open>unix\<close> and through the command \<open>keyctl show\<close>.  The host is a state: the persistent
  keyring of the current user with the keys linked into it (in the order a listing
  shows them), the serial number the kernel gives to the next key, and the two ways the
  environment may let the backend down (\<open>KEYCTL_GET_PERSISTENT\<close> failing, and whatever
  running \<open>keyctl\<close> with given arguments returns for given keyring contents: an
  execution error or the combined output).  The kernel, package \<open>unix\<close> and the tool are
  not part of the repository: the calls below follow \<open>keyctl(2)\<close> and \<open>add_key(2)\<close>, and
  what the tool prints is left open.
\<close>

record key =
  serial :: int
  description :: string
  payload :: string

record host =
  persistent_err :: "error option"
  persistent_id :: int
  keys :: "key list"
  next_serial :: int
  exec_keyctl :: "string list \<Rightarrow> key list \<Rightarrow> error + string"

text \<open>
  \<open>unix.KeyctlInt(unix.KEYCTL_GET_PERSISTENT, -1, unix.KEY_SPEC_SESSION_KEYRING, 0, 0)\<close>:
  the persistent keyring's serial number, or the error of the system call.
\<close>

definition KeyctlInt_GET_PERSISTENT :: "host \<Rightarrow> error + int" where
  "KeyctlInt_GET_PERSISTENT h =
     (case persistent_err h of Some err \<Rightarrow> Inl err | None \<Rightarrow> Inr (persistent_id h))"

text \<open>
  \<open>unix.KeyctlSearch(ringid, keyType, description, destRingid)\<close>: the serial number of the
  key of that type and description in the keyring.  The Go wrapper refuses a string
  with a NUL byte (\<open>EINVAL\<close>); a key that is not there is \<open>ENOKEY\<close>.  The keyring holds
  keys of type \<open>user\<close> only, and \<open>destRingid\<close> is 0 in every call (no link is made).
\<close>

definition KeyctlSearch :: "int \<Rightarrow> string \<Rightarrow> string \<Rightarrow> int \<Rightarrow> host \<Rightarrow> error + int" where
  "KeyctlSearch ringid keyType desc destRingid h =
     (if CHR 0x00 \<in> set keyType \<or> CHR 0x00 \<in> set desc then Inl (Errno ''EINVAL'')
      else if ringid \<noteq> persistent_id h \<or> keyType \<noteq> ''user'' then Inl (Errno ''ENOKEY'')
      else case find (\<lambda>k. description k = desc) (keys h) of
             None \<Rightarrow> Inl (Errno ''ENOKEY'')
           | Some k \<Rightarrow> Inr (serial k))"

text \<open>
  \<open>unix.KeyctlInt(unix.KEYCTL_UNLINK, id, ringid, 0, 0)\<close>: removes the link to the key from
  the keyring and returns 0; \<open>ENOENT\<close> when the key is not linked there.
\<close>

definition KeyctlInt_UNLINK :: "int \<Rightarrow> int \<Rightarrow> host \<Rightarrow> (error + int) \<times> host" where
  "KeyctlInt_UNLINK keyID ringid h =
     (if ringid \<noteq> persistent_id h then (Inl (Errno ''ENOKEY''), h)
      else if keyID \<notin> set (map serial (keys h)) then (Inl (Errno ''ENOENT''), h)
      else (Inr 0, h\<lparr>keys := filter (\<lambda>k. serial k \<noteq> keyID) (keys h)\<rparr>))"

text \<open>
  \<open>unix.AddKey(keyType, description, payload, ringid)\<close>, as \<open>add_key(2)\<close> describes it for
  keys of type \<open>user\<close>: an empty description, a description of 4096 bytes or more, an
  empty payload and a payload of more than 32767 bytes are refused with \<open>EINVAL\<close>; a key
  of the same description already in the keyring is updated in place and keeps its
  serial number; otherwise a new key with a fresh serial number is linked.
\<close>

definition AddKey :: "string \<Rightarrow> string \<Rightarrow> string \<Rightarrow> int \<Rightarrow> host \<Rightarrow> (error + int) \<times> host" where
  "AddKey keyType desc pl ringid h =
     (if CHR 0x00 \<in> set keyType \<or> CHR 0x00 \<in> set desc then (Inl (Errno ''EINVAL''), h)
      else if keyType \<noteq> ''user'' then (Inl (Errno ''ENODEV''), h)
      else if desc = [] \<or> 4096 \<le> length desc \<or> pl = [] \<or> 32767 < length pl
        then (Inl (Errno ''EINVAL''), h)
      else if ringid \<noteq> persistent_id h then (Inl (Errno ''ENOKEY''), h)
      else case find (\<lambda>k. description k = desc) (keys h) of
             Some k \<Rightarrow>
               (Inr (serial k),
                h\<lparr>keys := map (\<lambda>k'. if serial k' = serial k then k'\<lparr>payload := pl\<rparr> else k')
                              (keys h)\<rparr>)
           | None \<Rightarrow>
               (Inr (next_serial h),
                h\<lparr>keys := keys h @
                            [\<lparr>serial = next_serial h, description = desc, payload = pl\<rparr>],
                  next_serial := next_serial h + 1\<rparr>))"

text \<open>
  \<open>unix.KeyctlBuffer(unix.KEYCTL_READ, id, buf, 0)\<close>: returns the length of the key's data
  and copies the data into \<open>buf\<close> when it fits; the second component is \<open>buf\<close> after the
  call.
\<close>

definition KeyctlBuffer_READ :: "int \<Rightarrow> string \<Rightarrow> host \<Rightarrow> error + (int \<times> string)" where
  "KeyctlBuffer_READ keyID buf h =
     (case find (\<lambda>k. serial k = keyID) (keys h) of
        None \<Rightarrow> Inl (Errno ''ENOKEY'')
      | Some k \<Rightarrow>
          Inr (int (length (payload k)),
               if length (payload k) \<le> length buf
               then payload k @ drop (length (payload k)) buf else buf))"

text \<open>
  What the kernel guarantees of a keyring: no two keys share a serial number or a
  description, every serial number in use is below the next one to be given, and no
  description holds a NUL byte.  \<open>payload_of\<close> is the data stored under a description.
\<close>

definition valid_host :: "host \<Rightarrow> bool" where
  "valid_host h \<longleftrightarrow>
     distinct (map serial (keys h)) \<and> distinct (map description (keys h)) \<and>
     list_all (\<lambda>k. serial k < next_serial h \<and> CHR 0x00 \<notin> set (description k)) (keys h)"

definition payload_of :: "host \<Rightarrow> string \<Rightarrow> string option" where
  "payload_of h name = map_option payload (find (\<lambda>k. description k = name) (keys h))"

text \<open>
  \<open>untouched service h h'\<close>: the host \<open>h'\<close> differs from \<open>h\<close> at most by keys whose name
  starts with \<open>service:\<close> and which are gone.
\<close>

definition untouched :: "string \<Rightarrow> host \<Rightarrow> host \<Rightarrow> bool" where
  "untouched service h h' \<longleftrightarrow>
     valid_host h' \<and> persistent_err h' = persistent_err h \<and>
     persistent_id h' = persistent_id h \<and>
     (\<forall>n. payload_of h' n = payload_of h n \<or>
          payload_of h' n = None \<and> HasPrefix n (service @ '':''))"

section \<open>The kernel-keyring backend\<close>

text \<open>
  The backend of \<open>keyring_keyctl.go\<close>, on the persistent keyring.  (Two earlier versions
  of the file use the session keyring and differ in how the keyring is resolved and
  in the argument of \<open>keyctl show\<close> only.)
\<close>

definition getPersistentKeyring :: "host \<Rightarrow> error + int" where
  "getPersistentKeyring h =
     (case KeyctlInt_GET_PERSISTENT h of
        Inl err \<Rightarrow> Inl (ErrWrap ''failed to get persistent keyring'' err)
      | Inr persistentKeyringID \<Rightarrow> Inr persistentKeyringID)"

text \<open>The key's name, \<open>fmt.Sprintf("%s:%s", service, user)\<close>.\<close>

definition keyName :: "string \<Rightarrow> string \<Rightarrow> string" where
  "keyName service user = service @ '':'' @ user"

definition keyctlProvider_Set :: "string \<Rightarrow> string \<Rightarrow> string \<Rightarrow> host \<Rightarrow> error option \<times> host" where
  "keyctlProvider_Set service user pass h =
     (case getPersistentKeyring h of
        Inl err \<Rightarrow> (Some err, h)
      | Inr persistentKeyring \<Rightarrow>
          (let h1 = (case KeyctlSearch persistentKeyring ''user'' (keyName service user) 0 h of
                       Inr existingKeyID \<Rightarrow>
                         snd (KeyctlInt_UNLINK existingKeyID persistentKeyring h)
                     | Inl err \<Rightarrow> h)
           in case AddKey ''user'' (keyName service user) pass persistentKeyring h1 of
                (Inl err, h2) \<Rightarrow> (Some err, h2)
              | (Inr _, h2) \<Rightarrow> (None, h2)))"

definition keyctlProvider_Get :: "string \<Rightarrow> string \<Rightarrow> host \<Rightarrow> (string \<times> error option) \<times> host" where
  "keyctlProvider_Get service user h =
     (case getPersistentKeyring h of
        Inl err \<Rightarrow> (([], Some err), h)
      | Inr persistentKeyring \<Rightarrow>
          (case KeyctlSearch persistentKeyring ''user'' (keyName service user) 0 h of
             Inl err \<Rightarrow> (([], Some ErrNotFound), h)
           | Inr keyID \<Rightarrow>
               (case KeyctlBuffer_READ keyID [] h of
                  Inl err \<Rightarrow> (([], Some err), h)
                | Inr (sz, _) \<Rightarrow>
                    (case KeyctlBuffer_READ keyID (replicate (nat sz) (CHR 0x00)) h of
                       Inl err \<Rightarrow> (([], Some err), h)
                     | Inr (_, buf) \<Rightarrow> ((buf, None), h)))))"

definition keyctlProvider_Delete :: "string \<Rightarrow> string \<Rightarrow> host \<Rightarrow> error option \<times> host" where
  "keyctlProvider_Delete service user h =
     (case getPersistentKeyring h of
        Inl err \<Rightarrow> (Some err, h)
      | Inr persistentKeyring \<Rightarrow>
          (case KeyctlSearch persistentKeyring ''user'' (keyName service user) 0 h of
             Inl err \<Rightarrow> (Some ErrNotFound, h)
           | Inr keyID \<Rightarrow>
               (case KeyctlInt_UNLINK keyID persistentKeyring h of
                  (Inl err, h1) \<Rightarrow> (Some err, h1)
                | (Inr _, h1) \<Rightarrow> (None, h1))))"

text \<open>
  One round of the loop of \<open>DeleteAll\<close> over the lines of the listing: the line must
  contain \<open>service:\<close>, the text between the first and the second \<open>user:\<close> is trimmed and
  must start with \<open>service:\<close>; the key of that description is searched and unlinked, and
  the errors of both calls are dropped.
\<close>

definition DeleteAll_line :: "int \<Rightarrow> string \<Rightarrow> string \<Rightarrow> host \<Rightarrow> host" where
  "DeleteAll_line persistentKeyring service line h =
     (let prefix = service @ '':'' in
      if \<not> Contains line prefix then h
      else
        (let parts = Split line ''user:'' in
         if length parts < 2 then h
         else
           (let keyDesc = TrimSpace (parts ! 1) in
            if \<not> HasPrefix keyDesc (service @ '':'') then h
            else
              (case KeyctlSearch persistentKeyring ''user'' keyDesc 0 h of
                 Inr keyID \<Rightarrow> snd (KeyctlInt_UNLINK keyID persistentKeyring h)
               | Inl err \<Rightarrow> h))))"

fun DeleteAll_lines :: "int \<Rightarrow> string \<Rightarrow> string list \<Rightarrow> host \<Rightarrow> host" where
  "DeleteAll_lines persistentKeyring service [] h = h"
| "DeleteAll_lines persistentKeyring service (line # lines) h =
     DeleteAll_lines persistentKeyring service lines
       (DeleteAll_line persistentKeyring service line h)"

definition keyctlProvider_DeleteAll :: "string \<Rightarrow> host \<Rightarrow> error option \<times> host" where
  "keyctlProvider_DeleteAll service h =
     (if service = [] then (Some ErrNotFound, h)
      else
        (case getPersistentKeyring h of
           Inl err \<Rightarrow> (Some err, h)
         | Inr persistentKeyring \<Rightarrow>
             (case exec_keyctl h [''show'', Sprintf_d persistentKeyring] (keys h) of
                Inl err \<Rightarrow> (None, h)
              | Inr output \<Rightarrow>
                  (None,
                   DeleteAll_lines persistentKeyring service (Split output [CHR 0x0A]) h))))"

definition keyctlProvider :: "host Keyring" where
  "keyctlProvider =
     \<lparr> Set = keyctlProvider_Set, Get = keyctlProvider_Get,
       Delete = keyctlProvider_Delete, DeleteAll = keyctlProvider_DeleteAll \<rparr>"

text \<open>
  The listing \<open>keyctl show <id>\<close> prints for a keyring: a heading, the keyring itself, and
  one line per key in the format the source gives,
  \<open>" keyid --perms uid gid   \\_ user: service:username"\<close>.
\<close>

definition show_columns :: "int \<Rightarrow> string" where
  "show_columns n = '' '' @ Sprintf_d n @ '' --alswrv      0     0   '' @ [CHR 0x5C] @ ''_ ''"

definition show_entry :: "int \<Rightarrow> string \<Rightarrow> string" where
  "show_entry n desc = show_columns n @ ''user: '' @ desc"

definition show_line :: "key \<Rightarrow> string" where
  "show_line k = show_entry (serial k) (description k) @ [CHR 0x0A]"

definition keyctl_show :: "int \<Rightarrow> key list \<Rightarrow> string" where
  "keyctl_show ringid ks =
     ''Keyring'' @ [CHR 0x0A] @
     '' '' @ Sprintf_d ringid @ '' --alswrv      0     0  keyring: _persistent.0'' @ [CHR 0x0A] @
     concat (map show_line ks)"

text \<open>
  The two worlds side by side, for a composite of both backends: a provider on one
  component leaves the other alone.
\<close>

definition on_daemon :: "'d Keyring \<Rightarrow> ('d \<times> host) Keyring" where
  "on_daemon p =
     \<lparr> Set = (\<lambda>service user pass (d, h).
               case Set p service user pass d of (err, d') \<Rightarrow> (err, (d', h))),
       Get = (\<lambda>service user (d, h).
               case Get p service user d of (r, d') \<Rightarrow> (r, (d', h))),
       Delete = (\<lambda>service user (d, h).
               case Delete p service user d of (err, d') \<Rightarrow> (err, (d', h))),
       DeleteAll = (\<lambda>service (d, h).
               case DeleteAll p service d of (err, d') \<Rightarrow> (err, (d', h))) \<rparr>"

definition on_host :: "host Keyring \<Rightarrow> ('d \<times> host) Keyring" where
  "on_host p =
     \<lparr> Set = (\<lambda>service user pass (d, h).
               case Set p service user pass h of (err, h') \<Rightarrow> (err, (d, h'))),
       Get = (\<lambda>service user (d, h).
               case Get p service user h of (r, h') \<Rightarrow> (r, (d, h'))),
       Delete = (\<lambda>service user (d, h).
               case Delete p service user h of (err, h') \<Rightarrow> (err, (d, h'))),
       DeleteAll = (\<lambda>service (d, h).
               case DeleteAll p service h of (err, h') \<Rightarrow> (err, (d, h'))) \<rparr>"

section \<open>Concrete worlds\<close>

text \<open>
  A daemon that keeps its items in a list: one behaviour the calls of the
  secret-service library may have, on which the statements about that backend are
  exercised.  The daemon may be unreachable, and it may refuse to delete some items.
\<close>

record item =
  item_path :: ObjectPath
  attributes :: "(string \<times> string) list"
  secret :: string

record daemon =
  reachable :: bool
  stored :: "item list"
  undeletable :: "ObjectPath list"
  next_item :: nat

definition matches :: "(string \<times> string) list \<Rightarrow> item \<Rightarrow> bool" where
  "matches search i = list_all (\<lambda>kv. kv \<in> set (attributes i)) search"

definition list_daemon :: "daemon SecretService" where
  "list_daemon =
     \<lparr> ss_NewSecretService =
         (\<lambda>d. if reachable d then (None, d) else (Some (Errno ''no secret service''), d)),
       ss_OpenSession = (\<lambda>d. (Inr ''/session/1'', d)),
       ss_Close = (\<lambda>session d. (None, d)),
       ss_GetLoginCollection = ''/collection/login'',
       ss_Unlock = (\<lambda>path d. (None, d)),
       ss_NewSecret = (\<lambda>session pass. \<lparr>Session = session, Value = pass\<rparr>),
       ss_CreateItem =
         (\<lambda>collection label attrs sec d.
            (None,
             d\<lparr>stored := filter (\<lambda>i. attributes i \<noteq> attrs) (stored d) @
                          [\<lparr>item_path = collection @ ''/'' @ decimal (next_item d),
                            attributes = attrs, secret = Value sec\<rparr>],
               next_item := Suc (next_item d)\<rparr>)),
       ss_SearchItems =
         (\<lambda>collection search d. (Inr (map item_path (filter (matches search) (stored d))), d)),
       ss_GetSecret =
         (\<lambda>path session d.
            case find (\<lambda>i. item_path i = path) (stored d) of
              None \<Rightarrow> (Inl (Errno ''no such object''), d)
            | Some i \<Rightarrow> (Inr \<lparr>Session = session, Value = secret i\<rparr>, d)),
       ss_Delete =
         (\<lambda>path d.
            if path \<in> set (undeletable d) then (Some (Errno ''not permitted''), d)
            else (None, d\<lparr>stored := filter (\<lambda>i. item_path i \<noteq> path) (stored d)\<rparr>)) \<rparr>"

text \<open>A daemon that cannot be reached, and one that holds the secret of \<open>alice\<close>.\<close>

definition daemon_down :: daemon where
  "daemon_down = \<lparr>reachable = False, stored = [], undeletable = [], next_item = 0\<rparr>"

definition daemon_up :: daemon where
  "daemon_up =
     \<lparr>reachable = True,
      stored = [\<lparr>item_path = ''/collection/login/0'',
                attributes = [(''username'', ''alice''), (''service'', ''svc'')],
                secret = ''secret0''\<rparr>],
      undeletable = [], next_item = 1\<rparr>"

text \<open>A host whose persistent keyring is empty and whose \<open>keyctl\<close> prints the listing.\<close>

definition host0 :: host where
  "host0 =
     \<lparr>persistent_err = None, persistent_id = 7, keys = [], next_serial = 100,
      exec_keyctl = (\<lambda>args ks. Inr (keyctl_show 7 ks))\<rparr>"

text \<open>The host after the first keys were set: one key, and the next serial number.\<close>

definition host_one :: "int \<Rightarrow> string \<Rightarrow> string \<Rightarrow> host" where
  "host_one n name p =
     host0\<lparr>keys := [\<lparr>serial = n, description = name, payload = p\<rparr>], next_serial := n + 1\<rparr>"

text \<open>
  A host holding the secrets of \<open>alice\<close> for two services, the same host without the
  \<open>keyctl\<close> tool, and a daemon with three items of one service, the second of which it
  refuses to delete.
\<close>

definition host_two :: host where
  "host_two =
     \<lparr>persistent_err = None, persistent_id = 7,
      keys = [\<lparr>serial = 100, description = ''svc1:alice'', payload = ''p1''\<rparr>,
              \<lparr>serial = 101, description = ''svc2:alice'', payload = ''p2''\<rparr>],
      next_serial = 102,
      exec_keyctl = (\<lambda>args ks. Inr (keyctl_show 7 ks))\<rparr>"

definition host_no_tool :: host where
  "host_no_tool = host_two\<lparr>exec_keyctl := (\<lambda>args ks. Inl (ExecError ''executable file not found''))\<rparr>"

definition daemon_three :: daemon where
  "daemon_three =
     \<lparr>reachable = True,
      stored = [\<lparr>item_path = ''/collection/login/0'',
                 attributes = [(''username'', ''alice''), (''service'', ''svc'')],
                 secret = ''s0''\<rparr>,
                \<lparr>item_path = ''/collection/login/1'',
                 attributes = [(''username'', ''bob''), (''service'', ''svc'')],
                 secret = ''s1''\<rparr>,
                \<lparr>item_path = ''/collection/login/2'',
                 attributes = [(''username'', ''carol''), (''service'', ''svc'')],
                 secret = ''s2''\<rparr>],
      undeletable = [''/collection/login/1''], next_item = 3\<rparr>"


definition host_superuser :: host where
  "host_superuser =
     \<lparr>persistent_err = None, persistent_id = 7,
      keys = [\<lparr>serial = 100, description = ''superuser:bob'', payload = ''p1''\<rparr>,
              \<lparr>serial = 101, description = ''svc:carol '', payload = ''p2''\<rparr>],
      next_serial = 102,
      exec_keyctl = (\<lambda>args ks. Inr (keyctl_show 7 ks))\<rparr>"

text \<open>
  The composite the package builds on Linux when the daemon does not answer at start:
  the secret-service backend first, the kernel keyring as fallback.
\<close>

definition linux_composite :: "(daemon \<times> host) compositeProvider" where
  "linux_composite =
     \<lparr>primary = on_daemon (secretServiceProvider list_daemon),
      fallback = Some (on_host keyctlProvider)\<rparr>"

section \<open>The composite's fallback policy\<close>

lemmas ss_defs = on_daemon_def secretServiceProvider_def secretServiceProvider_Set_def
  secretServiceProvider_Get_def secretServiceProvider_Delete_def secretServiceProvider_DeleteAll_def
  findItem_def findServiceItems_def list_daemon_def matches_def


text \<open>
  Claim C1.  For each of the four operations of the composite provider and every input:
  when the primary returns an error and a fallback is configured, the composite returns
  exactly what the fallback returns (called on the world the primary left), and the
  primary's error is gone; when the primary succeeds, the composite returns the
  primary's result whatever the fallback is, so the fallback is not consulted; when no
  fallback is configured, the primary's result, success or error, is returned unchanged.
\<close>

theorem composite_fallback_policy:
  fixes c :: "'w compositeProvider"
  shows
    "(\<forall>e w' f. Set (primary c) s u p w = (Some e, w') \<and> fallback c = Some f \<longrightarrow>
        compositeProvider_Set c s u p w = Set f s u p w') \<and>
     (\<forall>w' f. Set (primary c) s u p w = (None, w') \<longrightarrow>
        compositeProvider_Set (c\<lparr>fallback := f\<rparr>) s u p w = (None, w')) \<and>
     (fallback c = None \<longrightarrow> compositeProvider_Set c s u p w = Set (primary c) s u p w) \<and>
     (\<forall>r e w' f. Get (primary c) s u w = ((r, Some e), w') \<and> fallback c = Some f \<longrightarrow>
        compositeProvider_Get c s u w = Get f s u w') \<and>
     (\<forall>r w' f. Get (primary c) s u w = ((r, None), w') \<longrightarrow>
        compositeProvider_Get (c\<lparr>fallback := f\<rparr>) s u w = ((r, None), w')) \<and>
     (fallback c = None \<longrightarrow> compositeProvider_Get c s u w = Get (primary c) s u w) \<and>
     (\<forall>e w' f. Delete (primary c) s u w = (Some e, w') \<and> fallback c = Some f \<longrightarrow>
        compositeProvider_Delete c s u w = Delete f s u w') \<and>
     (\<forall>w' f. Delete (primary c) s u w = (None, w') \<longrightarrow>
        compositeProvider_Delete (c\<lparr>fallback := f\<rparr>) s u w = (None, w')) \<and>
     (fallback c = None \<longrightarrow> compositeProvider_Delete c s u w = Delete (primary c) s u w) \<and>
     (\<forall>e w' f. DeleteAll (primary c) s w = (Some e, w') \<and> fallback c = Some f \<longrightarrow>
        compositeProvider_DeleteAll c s w = DeleteAll f s w') \<and>
     (\<forall>w' f. DeleteAll (primary c) s w = (None, w') \<longrightarrow>
        compositeProvider_DeleteAll (c\<lparr>fallback := f\<rparr>) s w = (None, w')) \<and>
     (fallback c = None \<longrightarrow> compositeProvider_DeleteAll c s w = DeleteAll (primary c) s w)"
  by (simp add: compositeProvider_Set_def compositeProvider_Get_def
      compositeProvider_Delete_def compositeProvider_DeleteAll_def)

theorem composite_fallback_policy_witness:
  "compositeProvider_Set linux_composite ''svc'' ''alice'' ''secret1'' (daemon_down, host0) =
     Set (on_host keyctlProvider) ''svc'' ''alice'' ''secret1'' (daemon_down, host0) \<and>
   compositeProvider_Get linux_composite ''svc'' ''alice'' (daemon_down, host0) =
     Get (on_host keyctlProvider) ''svc'' ''alice'' (daemon_down, host0) \<and>
   compositeProvider_Delete linux_composite ''svc'' ''alice'' (daemon_down, host0) =
     Delete (on_host keyctlProvider) ''svc'' ''alice'' (daemon_down, host0) \<and>
   compositeProvider_DeleteAll linux_composite ''svc'' (daemon_down, host0) =
     DeleteAll (on_host keyctlProvider) ''svc'' (daemon_down, host0) \<and>
   compositeProvider_Set (linux_composite\<lparr>fallback := Some (on_host keyctlProvider)\<rparr>)
       ''svc'' ''alice'' ''secret1'' (daemon_up, host0) =
     (None,
      (daemon_up\<lparr>stored := [\<lparr>item_path = ''/collection/login/1'',
                             attributes = [(''username'', ''alice''), (''service'', ''svc'')],
                             secret = ''secret1''\<rparr>],
                 next_item := 2\<rparr>, host0)) \<and>
   compositeProvider_Get (linux_composite\<lparr>fallback := Some (on_host keyctlProvider)\<rparr>)
       ''svc'' ''alice'' (daemon_up, host0) =
     ((''secret0'', None), (daemon_up, host0)) \<and>
   compositeProvider_Delete (linux_composite\<lparr>fallback := Some (on_host keyctlProvider)\<rparr>)
       ''svc'' ''alice'' (daemon_up, host0) =
     (None, (daemon_up\<lparr>stored := []\<rparr>, host0)) \<and>
   compositeProvider_DeleteAll (linux_composite\<lparr>fallback := Some (on_host keyctlProvider)\<rparr>)
       ''svc'' (daemon_up, host0) =
     (None, (daemon_up\<lparr>stored := []\<rparr>, host0)) \<and>
   compositeProvider_Set (linux_composite\<lparr>fallback := None\<rparr>)
       ''svc'' ''alice'' ''secret1'' (daemon_down, host0) =
     (Some (Errno ''no secret service''), (daemon_down, host0)) \<and>
   compositeProvider_Get (linux_composite\<lparr>fallback := None\<rparr>) ''svc'' ''alice'' (daemon_down, host0) =
     (([], Some (Errno ''no secret service'')), (daemon_down, host0)) \<and>
   compositeProvider_Delete (linux_composite\<lparr>fallback := None\<rparr>) ''svc'' ''alice'' (daemon_down, host0) =
     (Some (Errno ''no secret service''), (daemon_down, host0)) \<and>
   compositeProvider_DeleteAll (linux_composite\<lparr>fallback := None\<rparr>) ''svc'' (daemon_down, host0) =
     (Some (Errno ''no secret service''), (daemon_down, host0))"
proof -
  let ?p = "on_daemon (secretServiceProvider list_daemon)"
  let ?down = "(daemon_down, host0)"
  let ?up = "(daemon_up, host0)"
  have down:
    "Set ?p ''svc'' ''alice'' ''secret1'' ?down = (Some (Errno ''no secret service''), ?down)"
    "Get ?p ''svc'' ''alice'' ?down = (([], Some (Errno ''no secret service'')), ?down)"
    "Delete ?p ''svc'' ''alice'' ?down = (Some (Errno ''no secret service''), ?down)"
    "DeleteAll ?p ''svc'' ?down = (Some (Errno ''no secret service''), ?down)"
    by (simp_all add: ss_defs daemon_down_def)
  have up:
    "Set ?p ''svc'' ''alice'' ''secret1'' ?up =
       (None,
        (daemon_up\<lparr>stored := [\<lparr>item_path = ''/collection/login/1'',
                             attributes = [(''username'', ''alice''), (''service'', ''svc'')],
                             secret = ''secret1''\<rparr>],
                 next_item := 2\<rparr>, host0))"
    "Get ?p ''svc'' ''alice'' ?up = ((''secret0'', None), ?up)"
    "Delete ?p ''svc'' ''alice'' ?up = (None, (daemon_up\<lparr>stored := []\<rparr>, host0))"
    "DeleteAll ?p ''svc'' ?up = (None, (daemon_up\<lparr>stored := []\<rparr>, host0))"
    by (simp_all add: ss_defs daemon_up_def decimal.simps)
  have prim: "primary linux_composite = ?p" "fallback linux_composite = Some (on_host keyctlProvider)"
    by (simp_all add: linux_composite_def)
  show ?thesis
    using composite_fallback_policy [of linux_composite "''svc''" "''alice''" "''secret1''" ?down]
      composite_fallback_policy [of linux_composite "''svc''" "''alice''" "''secret1''" ?up]
      composite_fallback_policy [of "linux_composite\<lparr>fallback := None\<rparr>" "''svc''" "''alice''" "''secret1''" ?down]
    by (simp add: down up prim)
qed


section \<open>The empty service\<close>

text \<open>
  Claim C4.  \<open>DeleteAll\<close> with the empty service string returns \<open>ErrNotFound\<close> and leaves
  the world as it was, whatever is stored: on the secret-service backend (for every
  behaviour of the daemon), on the kernel-keyring backend, and on the composite of the
  two, with the fallback and without it.
\<close>

theorem DeleteAll_empty_service:
  "secretServiceProvider_DeleteAll svc [] d = (Some ErrNotFound, d) \<and>
   keyctlProvider_DeleteAll [] h = (Some ErrNotFound, h) \<and>
   compositeProvider_DeleteAll
     \<lparr>primary = on_daemon (secretServiceProvider svc), fallback = Some (on_host keyctlProvider)\<rparr>
     [] (d, h) = (Some ErrNotFound, (d, h)) \<and>
   compositeProvider_DeleteAll
     \<lparr>primary = on_daemon (secretServiceProvider svc), fallback = None\<rparr>
     [] (d, h) = (Some ErrNotFound, (d, h))"
  by (simp add: secretServiceProvider_DeleteAll_def keyctlProvider_DeleteAll_def
      compositeProvider_DeleteAll_def on_daemon_def on_host_def secretServiceProvider_def
      keyctlProvider_def)

theorem DeleteAll_empty_service_witness:
  "secretServiceProvider_DeleteAll list_daemon [] daemon_up = (Some ErrNotFound, daemon_up) \<and>
   keyctlProvider_DeleteAll [] host_two = (Some ErrNotFound, host_two) \<and>
   compositeProvider_DeleteAll linux_composite [] (daemon_down, host_two) =
     (Some ErrNotFound, (daemon_down, host_two))"
  using DeleteAll_empty_service [of list_daemon daemon_up host_two]
    DeleteAll_empty_service [of list_daemon daemon_down host_two]
  by (simp add: linux_composite_def)

section \<open>Nothing to delete, nothing to find\<close>

lemma KeyctlSearch_absent:
  "\<forall>k \<in> set (keys h). description k \<noteq> desc \<Longrightarrow> \<exists>e. KeyctlSearch ringid keyType desc dest h = Inl e"
proof -
  assume "\<forall>k \<in> set (keys h). description k \<noteq> desc"
  then have "find (\<lambda>k. description k = desc) (keys h) = None"
    by (simp add: find_None_iff)
  then show ?thesis
    by (simp add: KeyctlSearch_def)
qed

lemma DeleteAll_line_no_match:
  assumes "\<forall>k \<in> set (keys h). \<not> HasPrefix (description k) (service @ '':'')"
  shows "DeleteAll_line ring service line h = h"
proof -
  have "\<exists>e. KeyctlSearch ring ''user'' keyDesc 0 h = Inl e"
    if "HasPrefix keyDesc (service @ '':'')" for keyDesc
    using that assms by (intro KeyctlSearch_absent) auto
  then show ?thesis
    by (fastforce simp: DeleteAll_line_def Let_def split: sum.splits)
qed

lemma DeleteAll_lines_no_match:
  "\<forall>k \<in> set (keys h). \<not> HasPrefix (description k) (service @ '':'') \<Longrightarrow>
     DeleteAll_lines ring service lines h = h"
  by (induction lines) (simp_all add: DeleteAll_line_no_match)

text \<open>
  Claim C5.  For a non-empty service with no matching record, \<open>DeleteAll\<close> returns \<open>nil\<close>
  and not \<open>ErrNotFound\<close>.  On the secret-service backend: the daemon answers and the
  search by service yields no item.  On the kernel-keyring backend: the keyring
  resolves and no key's description starts with \<open>service:\<close>; then the keyring is left
  unchanged too, whatever \<open>keyctl show\<close> prints or fails with.
\<close>

theorem DeleteAll_no_matches:
  assumes "service \<noteq> []"
  shows
    "(ss_NewSecretService svc d = (None, da) \<and>
      ss_Unlock svc (ss_GetLoginCollection svc) da = (None, db) \<and>
      ss_SearchItems svc (ss_GetLoginCollection svc) [(''service'', service)] db = (Inr [], dc) \<longrightarrow>
        secretServiceProvider_DeleteAll svc service d = (None, dc)) \<and>
     (persistent_err h = None \<and>
      (\<forall>k \<in> set (keys h). \<not> HasPrefix (description k) (service @ '':'')) \<longrightarrow>
        keyctlProvider_DeleteAll service h = (None, h))"
proof (intro conjI impI)
  assume "ss_NewSecretService svc d = (None, da) \<and>
      ss_Unlock svc (ss_GetLoginCollection svc) da = (None, db) \<and>
      ss_SearchItems svc (ss_GetLoginCollection svc) [(''service'', service)] db = (Inr [], dc)"
  with assms show "secretServiceProvider_DeleteAll svc service d = (None, dc)"
    by (simp add: secretServiceProvider_DeleteAll_def findServiceItems_def)
next
  assume h: "persistent_err h = None \<and>
      (\<forall>k \<in> set (keys h). \<not> HasPrefix (description k) (service @ '':''))"
  then have "DeleteAll_lines ring service lines h = h" for ring lines
    by (simp add: DeleteAll_lines_no_match)
  with assms h show "keyctlProvider_DeleteAll service h = (None, h)"
    by (simp add: keyctlProvider_DeleteAll_def getPersistentKeyring_def
        KeyctlInt_GET_PERSISTENT_def split: sum.splits)
qed

theorem DeleteAll_no_matches_witness:
  "''other'' \<noteq> [] \<and>
   secretServiceProvider_DeleteAll list_daemon ''other'' daemon_up = (None, daemon_up) \<and>
   keyctlProvider_DeleteAll ''other'' host_two = (None, host_two)"
proof -
  have ne: "''other'' \<noteq> []" by simp
  have ss: "ss_NewSecretService list_daemon daemon_up = (None, daemon_up)"
    "ss_Unlock list_daemon (ss_GetLoginCollection list_daemon) daemon_up = (None, daemon_up)"
    "ss_SearchItems list_daemon (ss_GetLoginCollection list_daemon) [(''service'', ''other'')]
       daemon_up = (Inr [], daemon_up)"
    by (simp_all add: list_daemon_def daemon_up_def matches_def)
  have kc: "persistent_err host_two = None"
    "\<forall>k \<in> set (keys host_two). \<not> HasPrefix (description k) (''other'' @ '':'')"
    by (simp_all add: host_two_def HasPrefix_def)
  show ?thesis
    using DeleteAll_no_matches [OF ne, where svc = list_daemon and d = daemon_up and da = daemon_up
        and db = daemon_up and dc = daemon_up and h = host_two]
      ss kc ne
    by simp
qed

text \<open>
  Claim C6.  When the backend's search for \<open>(service, user)\<close> yields no match, \<open>Get\<close> and
  \<open>Delete\<close> return \<open>ErrNotFound\<close>: on the secret-service backend when the search by user
  and service returns an empty list, on the kernel-keyring backend when no key is named
  \<open>service:user\<close>.
\<close>

theorem Get_Delete_never_set:
  "(ss_NewSecretService svc d = (None, da) \<and>
    ss_Unlock svc (ss_GetLoginCollection svc) da = (None, db) \<and>
    ss_SearchItems svc (ss_GetLoginCollection svc)
      [(''username'', user), (''service'', service)] db = (Inr [], dc) \<longrightarrow>
      secretServiceProvider_Get svc service user d = (([], Some ErrNotFound), dc) \<and>
      secretServiceProvider_Delete svc service user d = (Some ErrNotFound, dc)) \<and>
   (persistent_err h = None \<and>
    (\<forall>k \<in> set (keys h). description k \<noteq> keyName service user) \<longrightarrow>
      keyctlProvider_Get service user h = (([], Some ErrNotFound), h) \<and>
      keyctlProvider_Delete service user h = (Some ErrNotFound, h))"
proof (intro conjI impI)
  assume a: "ss_NewSecretService svc d = (None, da) \<and>
    ss_Unlock svc (ss_GetLoginCollection svc) da = (None, db) \<and>
    ss_SearchItems svc (ss_GetLoginCollection svc)
      [(''username'', user), (''service'', service)] db = (Inr [], dc)"
  then have "findItem svc service user da = (Inl ErrNotFound, dc)"
    by (simp add: findItem_def)
  with a show "secretServiceProvider_Get svc service user d = (([], Some ErrNotFound), dc)"
    and "secretServiceProvider_Delete svc service user d = (Some ErrNotFound, dc)"
    by (simp_all add: secretServiceProvider_Get_def secretServiceProvider_Delete_def)
next
  assume a: "persistent_err h = None \<and>
    (\<forall>k \<in> set (keys h). description k \<noteq> keyName service user)"
  then obtain e where "KeyctlSearch (persistent_id h) ''user'' (keyName service user) 0 h = Inl e"
    using KeyctlSearch_absent by blast
  with a show "keyctlProvider_Get service user h = (([], Some ErrNotFound), h)"
    and "keyctlProvider_Delete service user h = (Some ErrNotFound, h)"
    by (simp_all add: keyctlProvider_Get_def keyctlProvider_Delete_def getPersistentKeyring_def
        KeyctlInt_GET_PERSISTENT_def)
qed

theorem Get_Delete_never_set_witness:
  "secretServiceProvider_Get list_daemon ''svc'' ''bob'' daemon_up =
     (([], Some ErrNotFound), daemon_up) \<and>
   secretServiceProvider_Delete list_daemon ''svc'' ''bob'' daemon_up =
     (Some ErrNotFound, daemon_up) \<and>
   keyctlProvider_Get ''svc'' ''bob'' host_two = (([], Some ErrNotFound), host_two) \<and>
   keyctlProvider_Delete ''svc'' ''bob'' host_two = (Some ErrNotFound, host_two)"
proof -
  have ss: "ss_NewSecretService list_daemon daemon_up = (None, daemon_up)"
    "ss_Unlock list_daemon (ss_GetLoginCollection list_daemon) daemon_up = (None, daemon_up)"
    "ss_SearchItems list_daemon (ss_GetLoginCollection list_daemon)
       [(''username'', ''bob''), (''service'', ''svc'')] daemon_up = (Inr [], daemon_up)"
    by (simp_all add: list_daemon_def daemon_up_def matches_def)
  have kc: "persistent_err host_two = None"
    "\<forall>k \<in> set (keys host_two). description k \<noteq> keyName ''svc'' ''bob''"
    by (simp_all add: host_two_def keyName_def)
  show ?thesis
    using Get_Delete_never_set [where svc = list_daemon and d = daemon_up and da = daemon_up
        and db = daemon_up and dc = daemon_up and user = "''bob''" and service = "''svc''"
        and h = host_two]
      ss kc
    by simp
qed

section \<open>Deleting all items of a service\<close>

lemma DeleteAll_items_append:
  "deletions_succeed svc pre d \<Longrightarrow>
     DeleteAll_items svc (pre @ rest) d = DeleteAll_items svc rest (deleted_state svc pre d)"
proof (induction pre arbitrary: d)
  case Nil
  then show ?case by (simp add: deleted_state_def)
next
  case (Cons p pre)
  obtain e d' where step: "ss_Delete svc p d = (e, d')" by (cases "ss_Delete svc p d")
  with Cons.prems have "e = None" "deletions_succeed svc pre d'" by simp_all
  with Cons.IH [of d'] step show ?case by (simp add: deleted_state_def)
qed

text \<open>
  Claim C7.  The secret-service backend's \<open>DeleteAll\<close>, when the search yields at least
  one item: the items are deleted one by one in the order of the search; at the first
  deletion that fails the error is returned at once and the daemon is left as that call
  left it, so no deletion is attempted for the items after it; when every deletion
  succeeds the result is \<open>nil\<close>.
\<close>

theorem DeleteAll_stops_at_first_error:
  assumes "service \<noteq> []"
    and "ss_NewSecretService svc d = (None, da)"
    and "ss_Unlock svc (ss_GetLoginCollection svc) da = (None, db)"
    and "ss_SearchItems svc (ss_GetLoginCollection svc) [(''service'', service)] db = (Inr items, dc)"
    and "items \<noteq> []"
  shows
    "(\<forall>pre x post e d'.
        items = pre @ x # post \<and> deletions_succeed svc pre dc \<and>
        ss_Delete svc x (deleted_state svc pre dc) = (Some e, d') \<longrightarrow>
          secretServiceProvider_DeleteAll svc service d = (Some e, d')) \<and>
     (deletions_succeed svc items dc \<longrightarrow>
        secretServiceProvider_DeleteAll svc service d = (None, deleted_state svc items dc))"
proof -
  from assms have run:
    "secretServiceProvider_DeleteAll svc service d = DeleteAll_items svc items dc"
    by (simp add: secretServiceProvider_DeleteAll_def findServiceItems_def)
  have "DeleteAll_items svc (pre @ x # post) dc = (Some e, d')"
    if "deletions_succeed svc pre dc" "ss_Delete svc x (deleted_state svc pre dc) = (Some e, d')"
    for pre x post e d'
    using that by (simp add: DeleteAll_items_append)
  moreover have "DeleteAll_items svc items dc = (None, deleted_state svc items dc)"
    if "deletions_succeed svc items dc"
    using DeleteAll_items_append [OF that, of "[]"] by simp
  ultimately show ?thesis
    unfolding run by blast
qed

theorem DeleteAll_stops_at_first_error_witness:
  "secretServiceProvider_DeleteAll list_daemon ''svc'' daemon_three =
     (Some (Errno ''not permitted''),
      daemon_three\<lparr>stored := [\<lparr>item_path = ''/collection/login/1'',
                 attributes = [(''username'', ''bob''), (''service'', ''svc'')],
                 secret = ''s1''\<rparr>,
                \<lparr>item_path = ''/collection/login/2'',
                 attributes = [(''username'', ''carol''), (''service'', ''svc'')],
                 secret = ''s2''\<rparr>]\<rparr>) \<and>
   secretServiceProvider_DeleteAll list_daemon ''svc'' daemon_up = (None, daemon_up\<lparr>stored := []\<rparr>)"
proof -
  let ?d' = "daemon_three\<lparr>stored := [\<lparr>item_path = ''/collection/login/1'',
                 attributes = [(''username'', ''bob''), (''service'', ''svc'')],
                 secret = ''s1''\<rparr>,
                \<lparr>item_path = ''/collection/login/2'',
                 attributes = [(''username'', ''carol''), (''service'', ''svc'')],
                 secret = ''s2''\<rparr>]\<rparr>"
  have ne: "''svc'' \<noteq> []" by simp
  have three: "ss_NewSecretService list_daemon daemon_three = (None, daemon_three)"
    "ss_Unlock list_daemon (ss_GetLoginCollection list_daemon) daemon_three = (None, daemon_three)"
    "ss_SearchItems list_daemon (ss_GetLoginCollection list_daemon) [(''service'', ''svc'')]
       daemon_three =
       (Inr [''/collection/login/0'', ''/collection/login/1'', ''/collection/login/2''],
        daemon_three)"
    "[''/collection/login/0'', ''/collection/login/1'', ''/collection/login/2''] \<noteq> []"
    by (simp_all add: list_daemon_def daemon_three_def matches_def)
  have first_fails:
    "[''/collection/login/0'', ''/collection/login/1'', ''/collection/login/2''] =
       [''/collection/login/0''] @ ''/collection/login/1'' # [''/collection/login/2'']"
    "deletions_succeed list_daemon [''/collection/login/0''] daemon_three"
    "ss_Delete list_daemon ''/collection/login/1''
       (deleted_state list_daemon [''/collection/login/0''] daemon_three) =
       (Some (Errno ''not permitted''), ?d')"
    by (simp_all add: list_daemon_def daemon_three_def deleted_state_def)
  have up: "ss_NewSecretService list_daemon daemon_up = (None, daemon_up)"
    "ss_Unlock list_daemon (ss_GetLoginCollection list_daemon) daemon_up = (None, daemon_up)"
    "ss_SearchItems list_daemon (ss_GetLoginCollection list_daemon) [(''service'', ''svc'')]
       daemon_up = (Inr [''/collection/login/0''], daemon_up)"
    "[''/collection/login/0''] \<noteq> []"
    by (simp_all add: list_daemon_def daemon_up_def matches_def)
  have all_succeed: "deletions_succeed list_daemon [''/collection/login/0''] daemon_up"
    "deleted_state list_daemon [''/collection/login/0''] daemon_up = daemon_up\<lparr>stored := []\<rparr>"
    by (simp_all add: list_daemon_def daemon_up_def deleted_state_def)
  from DeleteAll_stops_at_first_error [OF ne three] first_fails
  have "secretServiceProvider_DeleteAll list_daemon ''svc'' daemon_three =
     (Some (Errno ''not permitted''), ?d')"
    by blast
  moreover from DeleteAll_stops_at_first_error [OF ne up] all_succeed
  have "secretServiceProvider_DeleteAll list_daemon ''svc'' daemon_up = (None, daemon_up\<lparr>stored := []\<rparr>)"
    by simp
  ultimately show ?thesis by simp
qed

text \<open>
  Claim C8.  The kernel-keyring backend's \<open>DeleteAll\<close> with a non-empty service: when
  running \<open>keyctl show\<close> fails, the result is \<open>nil\<close>, the error of the subprocess is
  dropped and no key is unlinked.
\<close>

theorem DeleteAll_keyctl_show_fails:
  "service \<noteq> [] \<Longrightarrow> persistent_err h = None \<Longrightarrow>
   exec_keyctl h [''show'', Sprintf_d (persistent_id h)] (keys h) = Inl e \<Longrightarrow>
     keyctlProvider_DeleteAll service h = (None, h)"
  by (simp add: keyctlProvider_DeleteAll_def getPersistentKeyring_def KeyctlInt_GET_PERSISTENT_def)

theorem DeleteAll_keyctl_show_fails_witness:
  "''svc1'' \<noteq> [] \<and> persistent_err host_no_tool = None \<and>
   exec_keyctl host_no_tool [''show'', Sprintf_d (persistent_id host_no_tool)] (keys host_no_tool) =
     Inl (ExecError ''executable file not found'') \<and>
   keyctlProvider_DeleteAll ''svc1'' host_no_tool = (None, host_no_tool) \<and>
   fst (keyctlProvider_Get ''svc1'' ''alice'' host_no_tool) = (''p1'', None)"
proof -
  have a: "''svc1'' \<noteq> []" "persistent_err host_no_tool = None"
    "exec_keyctl host_no_tool [''show'', Sprintf_d (persistent_id host_no_tool)] (keys host_no_tool) =
       Inl (ExecError ''executable file not found'')"
    by (simp_all add: host_no_tool_def host_two_def)
  have g: "fst (keyctlProvider_Get ''svc1'' ''alice'' host_no_tool) = (''p1'', None)"
    by (simp add: keyctlProvider_Get_def getPersistentKeyring_def KeyctlInt_GET_PERSISTENT_def
        KeyctlSearch_def KeyctlBuffer_READ_def keyName_def host_no_tool_def host_two_def)
  show ?thesis
    using DeleteAll_keyctl_show_fails [OF a] a g by simp
qed


section \<open>Setting and getting a key\<close>

text \<open>
  On a valid host the backend's calls can be read off the keyring's contents: \<open>Get\<close>
  returns the payload stored under the key's name, and a successful \<open>Set\<close> removes the
  key of that name and links a new one at the end.
\<close>

lemmas keyctl_defs = keyctlProvider_Set_def keyctlProvider_Get_def keyctlProvider_Delete_def
  getPersistentKeyring_def KeyctlInt_GET_PERSISTENT_def KeyctlSearch_def KeyctlInt_UNLINK_def
  AddKey_def KeyctlBuffer_READ_def keyName_def

lemma valid_host0: "valid_host host0"
  by (simp add: valid_host_def host0_def)

lemma find_by_serial:
  "distinct (map serial ks) \<Longrightarrow> k \<in> set ks \<Longrightarrow> find (\<lambda>k'. serial k' = serial k) ks = Some k"
  by (induction ks) (auto simp: rev_image_eqI)

lemma find_in_set: "find P xs = Some x \<Longrightarrow> x \<in> set xs \<and> P x"
  by (induction xs) (auto split: if_splits)

lemma find_append_eq:
  "find P (xs @ ys) = (case find P xs of None \<Rightarrow> find P ys | Some x \<Rightarrow> Some x)"
  by (induction xs) auto

lemma find_filter_description:
  "find (\<lambda>k. description k = name) (filter (\<lambda>k. description k \<noteq> d) ks) =
     (if name = d then None else find (\<lambda>k. description k = name) ks)"
  by (induction ks) auto

lemma filter_serial_description:
  assumes "distinct (map serial ks)" "k \<in> set ks"
  shows "filter (\<lambda>k'. serial k' \<noteq> serial k) ks = filter (\<lambda>k'. k' \<noteq> k) ks"
proof (rule filter_cong [OF refl])
  fix k' assume "k' \<in> set ks"
  with assms have "serial k' = serial k \<longleftrightarrow> k' = k"
    by (meson distinct_map inj_on_def)
  then show "(serial k' \<noteq> serial k) = (k' \<noteq> k)" by simp
qed

lemma filter_description_key:
  assumes "distinct (map description ks)" "k \<in> set ks"
  shows "filter (\<lambda>k'. description k' \<noteq> description k) ks = filter (\<lambda>k'. k' \<noteq> k) ks"
proof (rule filter_cong [OF refl])
  fix k' assume "k' \<in> set ks"
  with assms have "description k' = description k \<longleftrightarrow> k' = k"
    by (meson distinct_map inj_on_def)
  then show "(description k' \<noteq> description k) = (k' \<noteq> k)" by simp
qed

lemma find_map_payload:
  "find (\<lambda>k. description k = name) (map (\<lambda>k'. if Q k' then k'\<lparr>payload := p\<rparr> else k') ks) =
     map_option (\<lambda>k'. if Q k' then k'\<lparr>payload := p\<rparr> else k') (find (\<lambda>k. description k = name) ks)"
  by (induction ks) auto


lemma filter_filter_not: "filter (\<lambda>x. f x = a) (filter (\<lambda>x. f x \<noteq> a) xs) = []"
  by (induction xs) auto

lemma filter_absent:
  "find (\<lambda>k. description k = name) ks = None \<Longrightarrow> filter (\<lambda>k. description k \<noteq> name) ks = ks"
  by (induction ks) (auto split: if_splits)

lemma Get_eq:
  assumes "valid_host h" "persistent_err h = None"
  shows "keyctlProvider_Get service user h =
     ((case payload_of h (keyName service user) of
         None \<Rightarrow> ([], Some ErrNotFound) | Some p \<Rightarrow> (p, None)), h)"
proof (cases "find (\<lambda>k. description k = keyName service user) (keys h)")
  case None
  then have "\<exists>e. KeyctlSearch (persistent_id h) ''user'' (keyName service user) 0 h = Inl e"
    by (simp add: KeyctlSearch_def)
  with None assms show ?thesis
    by (auto simp: keyctlProvider_Get_def getPersistentKeyring_def KeyctlInt_GET_PERSISTENT_def
        payload_of_def)
next
  case (Some k)
  then have k: "k \<in> set (keys h)" "description k = keyName service user"
    using find_in_set by fastforce+
  with assms have "CHR 0x00 \<notin> set (keyName service user)"
    by (auto simp: valid_host_def list_all_iff)
  with Some have search:
    "KeyctlSearch (persistent_id h) ''user'' (keyName service user) 0 h = Inr (serial k)"
    by (simp add: KeyctlSearch_def)
  from assms k have "find (\<lambda>k'. serial k' = serial k) (keys h) = Some k"
    by (simp add: valid_host_def find_by_serial)
  then have read: "KeyctlBuffer_READ (serial k) buf h =
      Inr (int (length (payload k)),
           if length (payload k) \<le> length buf then payload k @ drop (length (payload k)) buf
           else buf)" for buf
    by (simp add: KeyctlBuffer_READ_def)
  from Some assms search show ?thesis
    by (simp add: keyctlProvider_Get_def getPersistentKeyring_def KeyctlInt_GET_PERSISTENT_def
        payload_of_def read)
qed

lemma unlink_eq:
  assumes "valid_host h" "k \<in> set (keys h)"
  shows "KeyctlInt_UNLINK (serial k) (persistent_id h) h =
           (Inr 0, h\<lparr>keys := filter (\<lambda>k'. description k' \<noteq> description k) (keys h)\<rparr>)"
proof -
  from assms have "filter (\<lambda>k'. serial k' \<noteq> serial k) (keys h) =
      filter (\<lambda>k'. description k' \<noteq> description k) (keys h)"
    by (simp add: valid_host_def filter_serial_description filter_description_key)
  with assms(2) show ?thesis
    by (simp add: KeyctlInt_UNLINK_def)
qed

lemma valid_host_filter:
  "valid_host h \<Longrightarrow> valid_host (h\<lparr>keys := filter P (keys h)\<rparr>)"
  by (simp add: valid_host_def distinct_map_filter list_all_iff)

lemma payload_of_filter:
  "payload_of (h\<lparr>keys := filter (\<lambda>k'. description k' \<noteq> d) (keys h)\<rparr>) = (payload_of h)(d := None)"
  by (rule ext) (simp add: payload_of_def find_filter_description)

lemma AddKey_eq:
  assumes "valid_host h" "AddKey ''user'' name p (persistent_id h) h = (Inr i, h')"
  shows "valid_host h' \<and> payload_of h' = (payload_of h)(name \<mapsto> p) \<and>
         persistent_err h' = persistent_err h \<and> persistent_id h' = persistent_id h \<and>
         exec_keyctl h' = exec_keyctl h \<and> next_serial h \<le> next_serial h'"
proof (cases "find (\<lambda>k. description k = name) (keys h)")
  case None
  with assms(2) have h': "h' = h\<lparr>keys := keys h @
        [\<lparr>serial = next_serial h, description = name, payload = p\<rparr>],
        next_serial := next_serial h + 1\<rparr>"
    and nul: "CHR 0x00 \<notin> set name"
    by (auto simp: AddKey_def split: if_splits)
  from None have fresh: "name \<notin> description ` set (keys h)"
    by (auto simp: find_None_iff)
  from assms(1) have "next_serial h \<notin> serial ` set (keys h)"
    by (auto simp: valid_host_def list_all_iff)
  with assms(1) fresh nul have "valid_host h'"
    by (auto simp: h' valid_host_def list_all_iff)
  moreover have "payload_of h' name' = ((payload_of h)(name \<mapsto> p)) name'" for name'
    using None by (cases "name' = name") (simp_all add: h' payload_of_def find_append_eq split: option.splits)
  then have "payload_of h' = (payload_of h)(name \<mapsto> p)" by (rule ext)
  ultimately show ?thesis by (simp add: h')
next
  case (Some k)
  let ?f = "\<lambda>k'. if serial k' = serial k then k'\<lparr>payload := p\<rparr> else k'"
  from Some assms(2) have h': "h' = h\<lparr>keys := map ?f (keys h)\<rparr>"
    by (auto simp: AddKey_def split: if_splits)
  from Some have k: "k \<in> set (keys h)" "description k = name"
    using find_in_set by fastforce+
  have same: "map (serial \<circ> ?f) ks = map serial ks"
    "map (description \<circ> ?f) ks = map description ks" for ks
    by (induction ks) auto
  from assms(1) have "valid_host h'"
    by (auto simp: h' valid_host_def list_all_iff same)
  moreover have "payload_of h' name' = ((payload_of h)(name \<mapsto> p)) name'" for name'
  proof (cases "find (\<lambda>k. description k = name') (keys h)")
    case None
    with Some have "name' \<noteq> name" by auto
    with None show ?thesis
      by (simp add: h' payload_of_def find_map_payload)
  next
    case found: (Some k')
    then have k': "k' \<in> set (keys h)" "description k' = name'"
      using find_in_set by fastforce+
    from assms(1) have "inj_on serial (set (keys h))" "inj_on description (set (keys h))"
      by (simp_all add: valid_host_def distinct_map)
    with k k' have "serial k' = serial k \<longleftrightarrow> k' = k" "description k' = description k \<longleftrightarrow> k' = k"
      by (auto dest: inj_onD)
    with k k' have "serial k' = serial k \<longleftrightarrow> name' = name"
      by simp
    with found show ?thesis
      by (simp add: h' payload_of_def find_map_payload)
  qed
  then have "payload_of h' = (payload_of h)(name \<mapsto> p)" by (rule ext)
  ultimately show ?thesis by (simp add: h')
qed

lemma Set_eq:
  assumes "valid_host h" "keyctlProvider_Set service user pass h = (None, h')"
  shows "valid_host h' \<and> payload_of h' = (payload_of h)(keyName service user \<mapsto> pass) \<and>
         persistent_err h = None \<and> persistent_err h' = None \<and>
         persistent_id h' = persistent_id h \<and> exec_keyctl h' = exec_keyctl h"
proof -
  let ?name = "keyName service user"
  from assms(2) have up: "persistent_err h = None"
    by (auto simp: keyctlProvider_Set_def getPersistentKeyring_def KeyctlInt_GET_PERSISTENT_def
        split: option.splits)
  define ha where
    "ha = (case KeyctlSearch (persistent_id h) ''user'' ?name 0 h of
             Inr existingKeyID \<Rightarrow> snd (KeyctlInt_UNLINK existingKeyID (persistent_id h) h)
           | Inl err \<Rightarrow> h)"
  from assms(2) up obtain i where add: "AddKey ''user'' ?name pass (persistent_id h) ha = (Inr i, h')"
    by (auto simp: keyctlProvider_Set_def getPersistentKeyring_def KeyctlInt_GET_PERSISTENT_def
        ha_def split: sum.splits prod.splits)
  have ha: "valid_host ha \<and> persistent_err ha = None \<and> persistent_id ha = persistent_id h \<and>
      exec_keyctl ha = exec_keyctl h \<and>
      (payload_of ha = payload_of h \<or> payload_of ha = (payload_of h)(?name := None))"
  proof (cases "KeyctlSearch (persistent_id h) ''user'' ?name 0 h")
    case (Inl e)
    with assms(1) up show ?thesis by (simp add: ha_def)
  next
    case (Inr existingKeyID)
    then obtain k where "find (\<lambda>k. description k = ?name) (keys h) = Some k"
      and id: "existingKeyID = serial k"
      by (auto simp: KeyctlSearch_def split: if_splits option.splits)
    then have k: "k \<in> set (keys h)" "description k = ?name"
      using find_in_set by fastforce+
    with Inr id assms(1) have "ha = h\<lparr>keys := filter (\<lambda>k'. description k' \<noteq> ?name) (keys h)\<rparr>"
      by (simp add: ha_def unlink_eq)
    with assms(1) up show ?thesis
      by (simp add: valid_host_filter payload_of_filter)
  qed
  then have "persistent_id ha = persistent_id h" by simp
  with add have "AddKey ''user'' ?name pass (persistent_id ha) ha = (Inr i, h')" by simp
  with ha have "valid_host h' \<and> payload_of h' = (payload_of ha)(?name \<mapsto> pass) \<and>
         persistent_err h' = persistent_err ha \<and> persistent_id h' = persistent_id ha \<and>
         exec_keyctl h' = exec_keyctl ha \<and> next_serial ha \<le> next_serial h'"
    by (intro AddKey_eq) simp_all
  with ha up show ?thesis by auto
qed

lemma Set_result:
  assumes "valid_host h" "keyctlProvider_Set service user pass h = (None, h')"
  shows "h' = h\<lparr>keys := filter (\<lambda>k. description k \<noteq> keyName service user) (keys h) @
                [\<lparr>serial = next_serial h, description = keyName service user, payload = pass\<rparr>],
              next_serial := next_serial h + 1\<rparr>"
proof -
  let ?name = "keyName service user"
  from assms(2) have up: "persistent_err h = None"
    by (auto simp: keyctlProvider_Set_def getPersistentKeyring_def KeyctlInt_GET_PERSISTENT_def
        split: option.splits)
  define ha where
    "ha = (case KeyctlSearch (persistent_id h) ''user'' ?name 0 h of
             Inr existingKeyID \<Rightarrow> snd (KeyctlInt_UNLINK existingKeyID (persistent_id h) h)
           | Inl err \<Rightarrow> h)"
  from assms(2) up obtain i where add: "AddKey ''user'' ?name pass (persistent_id h) ha = (Inr i, h')"
    by (auto simp: keyctlProvider_Set_def getPersistentKeyring_def KeyctlInt_GET_PERSISTENT_def
        ha_def split: sum.splits prod.splits)
  then have nul: "CHR 0x00 \<notin> set ?name"
    by (auto simp: AddKey_def split: if_splits)
  have ha: "ha = h\<lparr>keys := filter (\<lambda>k. description k \<noteq> ?name) (keys h)\<rparr>"
  proof (cases "find (\<lambda>k. description k = ?name) (keys h)")
    case None
    then have "ha = h" by (simp add: ha_def KeyctlSearch_def nul)
    with None show ?thesis by (simp add: filter_absent)
  next
    case (Some k)
    then have k: "k \<in> set (keys h)" "description k = ?name"
      using find_in_set by fastforce+
    from Some have "KeyctlSearch (persistent_id h) ''user'' ?name 0 h = Inr (serial k)"
      by (simp add: KeyctlSearch_def nul)
    with k assms(1) show ?thesis
      by (simp add: ha_def unlink_eq)
  qed
  have "find (\<lambda>k. description k = ?name) (keys ha) = None"
    by (simp add: ha find_filter_description)
  with add have "h' = ha\<lparr>keys := keys ha @
        [\<lparr>serial = next_serial ha, description = ?name, payload = pass\<rparr>],
        next_serial := next_serial ha + 1\<rparr>"
    by (auto simp: AddKey_def split: if_splits)
  then show ?thesis by (simp add: ha)
qed

text \<open>
  Claim C2.  On the kernel-keyring backend, a successful \<open>Set(service, user, pass)\<close>
  followed by \<open>Get(service, user)\<close> returns exactly \<open>pass\<close>, for every service, user and
  payload, whatever bytes the payload holds.  (An empty payload never gets that far:
  \<open>Set\<close> fails on it.)
\<close>

theorem Set_then_Get:
  assumes "valid_host h" and "keyctlProvider_Set service user pass h = (None, h')"
  shows "keyctlProvider_Get service user h' = ((pass, None), h')"
proof -
  from Set_eq [OF assms]
  have "valid_host h'" "persistent_err h' = None"
    "payload_of h' (keyName service user) = Some pass"
    by simp_all
  then show ?thesis by (simp add: Get_eq)
qed

theorem Set_then_Get_witness:
  "valid_host host0 \<and>
   keyctlProvider_Set ''svc'' ''alice''
       (''line1'' @ [CHR 0x0A] @ ''line2'' @ [CHR 0x00, CHR 0xFF, CHR 0xC3, CHR 0xBC]) host0 =
     (None, host_one 100 ''svc:alice''
        (''line1'' @ [CHR 0x0A] @ ''line2'' @ [CHR 0x00, CHR 0xFF, CHR 0xC3, CHR 0xBC])) \<and>
   keyctlProvider_Get ''svc'' ''alice''
       (host_one 100 ''svc:alice''
          (''line1'' @ [CHR 0x0A] @ ''line2'' @ [CHR 0x00, CHR 0xFF, CHR 0xC3, CHR 0xBC])) =
     ((''line1'' @ [CHR 0x0A] @ ''line2'' @ [CHR 0x00, CHR 0xFF, CHR 0xC3, CHR 0xBC], None),
      host_one 100 ''svc:alice''
        (''line1'' @ [CHR 0x0A] @ ''line2'' @ [CHR 0x00, CHR 0xFF, CHR 0xC3, CHR 0xBC]))"
proof -
  let ?p = "''line1'' @ [CHR 0x0A] @ ''line2'' @ [CHR 0x00, CHR 0xFF, CHR 0xC3, CHR 0xBC]"
  have s: "keyctlProvider_Set ''svc'' ''alice'' ?p host0 = (None, host_one 100 ''svc:alice'' ?p)"
    by (simp add: keyctl_defs host0_def host_one_def)
  from Set_then_Get [OF valid_host0 s] valid_host0 s show ?thesis by simp
qed

text \<open>
  Claim C3.  After two successful calls of \<open>Set\<close> for the same service and user, the
  keyring holds at most one key of that name and \<open>Get\<close> returns the second payload.
  The second call has removed the key the first one made and linked a new key, with a
  new serial number, at the end of the keyring.
\<close>

theorem Set_twice:
  assumes "valid_host h"
    and "keyctlProvider_Set service user pa h = (None, ha)"
    and "keyctlProvider_Set service user pb ha = (None, hb)"
  shows "length (filter (\<lambda>k. description k = keyName service user) (keys hb)) \<le> 1 \<and>
         keyctlProvider_Get service user hb = ((pb, None), hb) \<and>
         keys hb = filter (\<lambda>k. description k \<noteq> keyName service user) (keys ha) @
           [\<lparr>serial = next_serial ha, description = keyName service user, payload = pb\<rparr>]"
proof -
  from Set_eq [OF assms(1,2)] have va: "valid_host ha" by simp
  from Set_result [OF va assms(3)]
  have keys: "keys hb = filter (\<lambda>k. description k \<noteq> keyName service user) (keys ha) @
           [\<lparr>serial = next_serial ha, description = keyName service user, payload = pb\<rparr>]"
    by simp
  have "filter (\<lambda>k. description k = keyName service user)
          (filter (\<lambda>k. description k \<noteq> keyName service user) (keys ha)) = []"
    by (rule filter_filter_not)
  with keys have "length (filter (\<lambda>k. description k = keyName service user) (keys hb)) \<le> 1"
    by simp
  moreover from Set_eq [OF va assms(3)]
  have "valid_host hb" "persistent_err hb = None"
    "payload_of hb (keyName service user) = Some pb"
    by simp_all
  then have "keyctlProvider_Get service user hb = ((pb, None), hb)"
    by (simp add: Get_eq)
  ultimately show ?thesis using keys by simp
qed

theorem Set_twice_witness:
  "valid_host host0 \<and>
   keyctlProvider_Set ''svc'' ''alice'' ''secret1'' host0 =
     (None, host_one 100 ''svc:alice'' ''secret1'') \<and>
   keyctlProvider_Set ''svc'' ''alice'' ''secret2'' (host_one 100 ''svc:alice'' ''secret1'') =
     (None, host_one 101 ''svc:alice'' ''secret2'') \<and>
   length (filter (\<lambda>k. description k = keyName ''svc'' ''alice'')
     (keys (host_one 101 ''svc:alice'' ''secret2''))) \<le> 1 \<and>
   keyctlProvider_Get ''svc'' ''alice'' (host_one 101 ''svc:alice'' ''secret2'') =
     ((''secret2'', None), host_one 101 ''svc:alice'' ''secret2'')"
proof -
  have a: "keyctlProvider_Set ''svc'' ''alice'' ''secret1'' host0 =
     (None, host_one 100 ''svc:alice'' ''secret1'')"
    by (simp add: keyctl_defs host0_def host_one_def)
  have b: "keyctlProvider_Set ''svc'' ''alice'' ''secret2'' (host_one 100 ''svc:alice'' ''secret1'') =
     (None, host_one 101 ''svc:alice'' ''secret2'')"
    by (simp add: keyctl_defs host0_def host_one_def)
  from Set_twice [OF valid_host0 a b] valid_host0 a b show ?thesis by simp
qed

section \<open>Names with colons\<close>

lemma keyName_shift: "keyName (service @ '':'' @ x) user = keyName service (x @ '':'' @ user)"
  by (simp add: keyName_def)





section \<open>Deleting all keys of a service\<close>

text \<open>
  Facts about the string functions, as far as the loop of \<open>DeleteAll\<close> needs them: where
  the first separator is found, what \<open>Split\<close> makes of a line of the listing, and that
  every line of a text that ends in a newline is among the pieces.
\<close>

lemmas string_defs = HasPrefix_def HasSuffix_def Contains_def Split.simps TrimSpace_def
  TrimLeft.simps TrimRight.simps leading_space_def trailing_space_def space_runes_def
  Sprintf_d_def decimal.simps

lemmas listing_defs = keyctl_show_def show_line_def show_entry_def show_columns_def
















lemma show_line_last: "last (show_line k) = CHR 0x0A"
  by (simp add: show_line_def)


text \<open>
  The loop on a valid host: each round leaves the host as it is or removes the key of
  one name that starts with \<open>service:\<close>; the round for a line of the listing whose name
  is well-behaved removes the key of that name.
\<close>

lemma KeyctlSearch_Inr:
  "KeyctlSearch ring keyType d dest h = Inr i \<Longrightarrow>
     ring = persistent_id h \<and> (\<exists>k. find (\<lambda>k. description k = d) (keys h) = Some k \<and> i = serial k)"
  by (auto simp: KeyctlSearch_def split: if_splits option.splits)

lemma search_unlink:
  assumes "valid_host h"
  shows "(case KeyctlSearch ring ''user'' d 0 h of
            Inr keyID \<Rightarrow> snd (KeyctlInt_UNLINK keyID ring h) | Inl err \<Rightarrow> h) = h \<and>
         (payload_of h d = None \<or> ring \<noteq> persistent_id h) \<or>
         (case KeyctlSearch ring ''user'' d 0 h of
            Inr keyID \<Rightarrow> snd (KeyctlInt_UNLINK keyID ring h) | Inl err \<Rightarrow> h) =
           h\<lparr>keys := filter (\<lambda>k. description k \<noteq> d) (keys h)\<rparr>"
proof (cases "KeyctlSearch ring ''user'' d 0 h")
  case (Inl e)
  have "payload_of h d = None \<or> ring \<noteq> persistent_id h"
  proof (cases "find (\<lambda>k. description k = d) (keys h)")
    case None
    then show ?thesis by (simp add: payload_of_def)
  next
    case (Some k)
    then have "k \<in> set (keys h)" "description k = d"
      using find_in_set by fastforce+
    with assms have "CHR 0x00 \<notin> set d"
      by (auto simp: valid_host_def list_all_iff)
    with Some Inl show ?thesis
      by (simp add: KeyctlSearch_def split: if_splits)
  qed
  with Inl show ?thesis by simp
next
  case (Inr keyID)
  from KeyctlSearch_Inr [OF Inr] obtain k
    where ring: "ring = persistent_id h"
      and k: "find (\<lambda>k. description k = d) (keys h) = Some k" "keyID = serial k"
    by blast
  from k(1) have "k \<in> set (keys h)" "description k = d"
    using find_in_set by fastforce+
  with assms Inr ring k(2) show ?thesis
    by (simp add: unlink_eq)
qed

lemma DeleteAll_line_cases:
  assumes "valid_host h"
  shows "DeleteAll_line ring service line h = h \<or>
         (\<exists>d. HasPrefix d (service @ '':'') \<and>
              DeleteAll_line ring service line h =
                h\<lparr>keys := filter (\<lambda>k. description k \<noteq> d) (keys h)\<rparr>)"
  using search_unlink [OF assms, of ring "TrimSpace (Split line ''user:'' ! 1)"]
  by (auto simp: DeleteAll_line_def Let_def)

lemma untouched_refl: "valid_host h \<Longrightarrow> untouched service h h"
  by (simp add: untouched_def)

lemma untouched_trans:
  "untouched service h ha \<Longrightarrow> untouched service ha hb \<Longrightarrow> untouched service h hb"
  unfolding untouched_def by metis

lemma DeleteAll_line_untouched:
  assumes "valid_host h"
  shows "untouched service h (DeleteAll_line ring service line h)"
  using DeleteAll_line_cases [OF assms, of ring service line]
proof (elim disjE exE conjE)
  assume "DeleteAll_line ring service line h = h"
  with assms show ?thesis by (simp add: untouched_refl)
next
  fix d
  assume d: "HasPrefix d (service @ '':'')"
    and eq: "DeleteAll_line ring service line h =
      h\<lparr>keys := filter (\<lambda>k. description k \<noteq> d) (keys h)\<rparr>"
  from assms have "valid_host (h\<lparr>keys := filter (\<lambda>k. description k \<noteq> d) (keys h)\<rparr>)"
    by (rule valid_host_filter)
  with d show ?thesis
    by (simp add: untouched_def eq payload_of_filter)
qed

lemma DeleteAll_lines_untouched:
  "valid_host h \<Longrightarrow> untouched service h (DeleteAll_lines ring service lines h)"
proof (induction lines arbitrary: h)
  case Nil
  then show ?case by (simp add: untouched_refl)
next
  case (Cons line lines)
  let ?ha = "DeleteAll_line ring service line h"
  from Cons.prems have step: "untouched service h ?ha"
    by (rule DeleteAll_line_untouched)
  then have "valid_host ?ha" by (simp add: untouched_def)
  then have "untouched service ?ha (DeleteAll_lines ring service lines ?ha)"
    by (rule Cons.IH)
  with step show ?case
    by (simp add: untouched_trans)
qed

lemma DeleteAll_untouched:
  assumes "valid_host h"
  shows "untouched service h (snd (keyctlProvider_DeleteAll service h))"
  using assms
  by (auto simp: keyctlProvider_DeleteAll_def untouched_refl DeleteAll_lines_untouched
      split: sum.splits)




text \<open>
  Validity is an invariant: a valid host is valid after each of the four operations,
  whether the operation succeeds or fails.  The empty keyring \<open>host0\<close> is valid.
\<close>

lemma AddKey_valid:
  assumes "valid_host h"
  shows "valid_host (snd (AddKey keyType name p ring h))"
proof (cases "AddKey keyType name p ring h")
  case (Pair r h')
  show ?thesis
  proof (cases r)
    case (Inl e)
    with Pair have "h' = h"
      by (auto simp: AddKey_def split: if_splits option.splits)
    with assms Pair show ?thesis by simp
  next
    case (Inr i)
    with Pair have "keyType = ''user''" "ring = persistent_id h"
      by (auto simp: AddKey_def split: if_splits)
    with Pair Inr AddKey_eq [OF assms, of name p i h'] show ?thesis by simp
  qed
qed

lemma unlink_valid:
  "valid_host h \<Longrightarrow> valid_host (snd (KeyctlInt_UNLINK keyID ring h))"
  by (simp add: KeyctlInt_UNLINK_def valid_host_filter)

lemma snd_result:
  "snd (case x of (Inl err, h') \<Rightarrow> (Some err, h') | (Inr i, h') \<Rightarrow> (None, h')) = snd x"
  by (cases x) (simp split: sum.splits)

lemma valid_host_preserved:
  assumes "valid_host h"
  shows "valid_host (snd (keyctlProvider_Set service user pass h))"
    and "valid_host (snd (keyctlProvider_Get service user h))"
    and "valid_host (snd (keyctlProvider_Delete service user h))"
    and "valid_host (snd (keyctlProvider_DeleteAll service h))"
proof -
  show "valid_host (snd (keyctlProvider_Set service user pass h))"
  proof (cases "getPersistentKeyring h")
    case (Inl e)
    with assms show ?thesis by (simp add: keyctlProvider_Set_def)
  next
    case (Inr ring)
    define ha where "ha = (case KeyctlSearch ring ''user'' (keyName service user) 0 h of
        Inr existingKeyID \<Rightarrow> snd (KeyctlInt_UNLINK existingKeyID ring h) | Inl err \<Rightarrow> h)"
    have "valid_host ha"
      using assms by (simp add: ha_def unlink_valid split: sum.splits)
    then have "valid_host (snd (AddKey ''user'' (keyName service user) pass ring ha))"
      by (rule AddKey_valid)
    moreover have "snd (keyctlProvider_Set service user pass h) =
        snd (AddKey ''user'' (keyName service user) pass ring ha)"
      unfolding keyctlProvider_Set_def Inr ha_def Let_def by (simp add: snd_result)
    ultimately show ?thesis by simp
  qed
  show "valid_host (snd (keyctlProvider_Get service user h))"
    using assms by (simp add: keyctlProvider_Get_def split: sum.splits prod.splits)
  show "valid_host (snd (keyctlProvider_Delete service user h))"
  proof (cases "getPersistentKeyring h")
    case (Inl e)
    with assms show ?thesis by (simp add: keyctlProvider_Delete_def)
  next
    case (Inr ring)
    show ?thesis
    proof (cases "KeyctlSearch ring ''user'' (keyName service user) 0 h")
      case (Inl e)
      with Inr assms show ?thesis by (simp add: keyctlProvider_Delete_def)
    next
      case found: (Inr keyID)
      have "snd (keyctlProvider_Delete service user h) = snd (KeyctlInt_UNLINK keyID ring h)"
        unfolding keyctlProvider_Delete_def by (simp add: Inr found snd_result)
      with unlink_valid [OF assms] show ?thesis by simp
    qed
  qed
  show "valid_host (snd (keyctlProvider_DeleteAll service h))"
    using DeleteAll_untouched [OF assms] by (simp add: untouched_def)
qed




text \<open>
  Two names the parsing of the listing does not get right, which is why the statement
  above sets them aside: a name that contains \<open>user:\<close> is cut at that place
  (\<open>superuser:bob\<close> is read as \<open>super\<close>), and white space at the end of a name is trimmed
  away, so neither key is found and both survive \<open>DeleteAll\<close> of their service.
\<close>

lemma DeleteAll_misses_names:
  "keyctlProvider_DeleteAll ''superuser'' host_superuser = (None, host_superuser) \<and>
   keyctlProvider_Get ''superuser'' ''bob'' host_superuser = ((''p1'', None), host_superuser) \<and>
   keyctlProvider_DeleteAll ''svc'' host_superuser = (None, host_superuser) \<and>
   keyctlProvider_Get ''svc'' ''carol '' host_superuser = ((''p2'', None), host_superuser)"
proof -
  have "keyctlProvider_DeleteAll ''superuser'' host_superuser = (None, host_superuser)"
    "keyctlProvider_DeleteAll ''svc'' host_superuser = (None, host_superuser)"
    by (simp_all add: keyctlProvider_DeleteAll_def DeleteAll_line_def keyctl_defs
        host_superuser_def listing_defs string_defs)
  moreover have
    "keyctlProvider_Get ''superuser'' ''bob'' host_superuser = ((''p1'', None), host_superuser)"
    "keyctlProvider_Get ''svc'' ''carol '' host_superuser = ((''p2'', None), host_superuser)"
    by (simp_all add: keyctl_defs host_superuser_def)
  ultimately show ?thesis by simp
qed

end
